theory Spec2Isabelle
  imports Complex_Main "HOL-Library.Sublist" "HOL-Library.Log_Nat" "HOL-Library.AList"
begin

section \<open>Python strings\<close>

text \<open>
  A Python \<open>str\<close> is modelled as a \<open>string\<close>, each \<open>char\<close> standing for the code point
  of the same number (U+0000 to U+00FF). The characters the organizer tests for are all
  ASCII except the copyright sign of the MP4 atoms (U+00A9).
\<close>

definition backslash :: char where
  "backslash = CHR 0x5C"

definition dquote :: char where
  "dquote = CHR 0x22"

definition squote :: char where
  "squote = CHR 0x27"

definition copyright :: char where
  "copyright = CHR 0xA9"

text \<open>\<open>text.translate(str.maketrans("", "", ds))\<close>: every character of \<open>ds\<close> is deleted.\<close>

definition translate_delete :: "string \<Rightarrow> string \<Rightarrow> string" where
  "translate_delete ds s = filter (\<lambda>c. c \<notin> set ds) s"

text \<open>
  \<open>s.replace(old, new)\<close> for a non-empty \<open>old\<close>: the occurrences are found from the
  left and do not overlap.
\<close>

function py_replace :: "string \<Rightarrow> string \<Rightarrow> string \<Rightarrow> string" where
  "py_replace old new [] = []"
| "py_replace old new (c # cs) =
     (if old \<noteq> [] \<and> prefix old (c # cs)
      then new @ py_replace old new (drop (length old - 1) cs)
      else c # py_replace old new cs)"
  by pat_completeness auto
termination
  by (relation "measure (\<lambda>(old, new, s). length s)") auto

text \<open>\<open>str.isspace\<close> on the code points below U+0100, the characters \<open>str.strip()\<close> removes.\<close>

definition is_space :: "char \<Rightarrow> bool" where
  "is_space c = (of_char c \<in> {9, 10, 11, 12, 13, 28, 29, 30, 31, 32, 133, 160 :: nat})"

definition py_strip :: "string \<Rightarrow> string" where
  "py_strip s = rev (dropWhile is_space (rev (dropWhile is_space s)))"

text \<open>\<open>str.lower\<close> on the code points below U+0100.\<close>

definition lower_char :: "char \<Rightarrow> char" where
  "lower_char c =
     (let n = (of_char c :: nat)
      in if (65 \<le> n \<and> n \<le> 90) \<or> (192 \<le> n \<and> n \<le> 222 \<and> n \<noteq> 215)
         then char_of (n + 32) else c)"

definition py_lower :: "string \<Rightarrow> string" where
  "py_lower s = map lower_char s"

text \<open>\<open>s.split(sep)\<close> for a separator of one character.\<close>

fun py_split :: "char \<Rightarrow> string \<Rightarrow> string list" where
  "py_split sep [] = [[]]"
| "py_split sep (c # cs) =
     (if c = sep then [] # py_split sep cs
      else (case py_split sep cs of
              [] \<Rightarrow> [[c]]
            | w # ws \<Rightarrow> (c # w) # ws))"

section \<open>The filename sanitizer\<close>

text \<open>
  \<open>OrganizeThread.clean_filename\<close>, with the setting \<open>remove_illegal_chars\<close> as the first
  argument.
\<close>

definition clean_filename :: "bool \<Rightarrow> string \<Rightarrow> string" where
  "clean_filename remove_illegal_chars text =
     py_strip
       (if remove_illegal_chars
        then py_replace ''...'' ''''
              (py_replace [squote] ''''
                (py_replace [dquote] ''''
                  (py_replace [backslash] ''''
                    (py_replace ''/'' ''''
                      (translate_delete '':*?<>|'' text)))))
        else text)"

section \<open>Progress arithmetic\<close>

text \<open>
  The percentage is \<open>int(i / len(pathlist) * 100)\<close>. Python divides two integers into
  the double nearest to the exact quotient, multiplies doubles by rounding the exact product
  to the nearest double (ties to the even significand), and \<open>int\<close> truncates toward zero.
  A finite double is a rational number, so the doubles are modelled inside \<open>rat\<close>:
  \<open>nearest_double\<close> rounds a rational to 53 significant bits, with the exponent held at
  the subnormal minimum. Overflow does not arise: every value here lies between 0 and 100.
\<close>

definition round_half_even :: "rat \<Rightarrow> int" where
  "round_half_even x =
     (let f = \<lfloor>x\<rfloor>; d = x - of_int f
      in if d < 1 / 2 then f else if 1 / 2 < d then f + 1 else if even f then f else f + 1)"

text \<open>\<open>ilog2 x\<close> is the integer \<open>k\<close> with \<open>2 powi k \<le> x < 2 powi (k + 1)\<close>, for \<open>x > 0\<close>.\<close>

definition ilog2 :: "rat \<Rightarrow> int" where
  "ilog2 x =
     (let (a, b) = quotient_of x; k = bitlen a - bitlen b
      in if 2 powi k \<le> x then k else k - 1)"

definition dexp :: "rat \<Rightarrow> int" where
  "dexp x = max (ilog2 x - 52) (- 1074)"

definition nearest_double :: "rat \<Rightarrow> rat" where
  "nearest_double x =
     (if x = 0 then 0
      else sgn x * of_int (round_half_even (\<bar>x\<bar> / 2 powi dexp \<bar>x\<bar>)) * 2 powi dexp \<bar>x\<bar>)"

definition true_div :: "nat \<Rightarrow> nat \<Rightarrow> rat" where
  "true_div i n = nearest_double (of_nat i / of_nat n)"

definition float_mul :: "rat \<Rightarrow> rat \<Rightarrow> rat" where
  "float_mul a b = nearest_double (a * b)"

definition py_int :: "rat \<Rightarrow> int" where
  "py_int x = (if 0 \<le> x then \<lfloor>x\<rfloor> else \<lceil>x\<rceil>)"

definition progress_percent :: "nat \<Rightarrow> nat \<Rightarrow> int" where
  "progress_percent i n = py_int (float_mul (true_div i n) 100)"

section \<open>Tags and records\<close>

text \<open>
  What the tag library hands back for one key is a plain \<open>str\<close>, a list, or a text
  object of its own (an ID3 text frame, an APE text value).
  An element of a list is a \<open>str\<close>, an \<open>ASFUnicodeAttribute\<close> (whose \<open>str()\<close> is
  its text) or an object of another type, kept by the name of its type, that has none of
  the \<open>str\<close> methods.
  A text object is kept as the list of its texts: its items are these texts, and it
  compares equal to a \<open>str\<close> when its texts joined by U+0000 are that \<open>str\<close>.
  An ID3 frame can have no text at all; an APE value, which is its string split at
  U+0000, has at least one.
\<close>

datatype elem = EStr string | EAsf string | EOther string

datatype tagval = VStr string | VSeq "elem list" | VText "string list"

type_synonym tags = "(string \<times> tagval) list"

text \<open>
  \<open>mutagen.File(path)\<close> raises (the text is that of \<open>str(e)\<close>), returns \<open>None\<close> for a
  file of no known format, or returns the tagged file, read through \<open>items()\<close>.
\<close>

datatype read_result = ReadFails string | NoFile | Tags tags

text \<open>The values stored in the dictionaries \<open>file_info\<close>, kept in insertion order.\<close>

datatype pyval = PVal tagval | PDict tags

type_synonym file_info = "(string \<times> pyval) list"

definition PStr :: "string \<Rightarrow> pyval" where
  "PStr s = PVal (VStr s)"

definition dict_get :: "file_info \<Rightarrow> string \<Rightarrow> pyval option" where
  "dict_get d k = map_of d k"

text \<open>\<open>not x\<close> for the result of \<open>dict.get\<close>: \<open>None\<close> and empty values are falsy.\<close>

fun py_not :: "pyval option \<Rightarrow> bool" where
  "py_not None = True"
| "py_not (Some (PVal (VStr s))) = (s = [])"
| "py_not (Some (PVal (VSeq xs))) = (xs = [])"
| "py_not (Some (PVal (VText ts))) = False"
| "py_not (Some (PDict d)) = (d = [])"

section \<open>The operating system and the tag library\<close>

text \<open>
  The file system, \<open>pathlib\<close>, \<open>shutil\<close> and \<open>mutagen\<close> are not part of the program:
  they are operations on a state \<open>'fs\<close>. An operation that can raise returns the text of
  the exception beside the state it leaves.
  \<^item> \<open>glob fs root pattern\<close>: \<open>list(Path(root).glob(pattern))\<close>, as strings;
  \<^item> \<open>mutagen_File fs path\<close>: \<open>mutagen.File(path)\<close>;
  \<^item> \<open>path_exists fs path\<close>: \<open>Path(path).exists()\<close>, which raises on an error of the
    system that does not mean the path is absent;
  \<^item> \<open>mkdir_parent fs path\<close>: \<open>Path(path).parent.mkdir(parents=True, exist_ok=True)\<close>;
  \<^item> \<open>access_R_OK fs path\<close>: \<open>os.access(Path(path), os.R_OK)\<close>;
  \<^item> \<open>copy2 fs src dst\<close>: \<open>shutil.copy2(src, dst)\<close>.
\<close>

record 'fs os =
  glob :: "'fs \<Rightarrow> string \<Rightarrow> string \<Rightarrow> string list"
  mutagen_File :: "'fs \<Rightarrow> string \<Rightarrow> read_result"
  path_exists :: "'fs \<Rightarrow> string \<Rightarrow> string + bool"
  mkdir_parent :: "'fs \<Rightarrow> string \<Rightarrow> 'fs \<times> string option"
  access_R_OK :: "'fs \<Rightarrow> string \<Rightarrow> bool"
  copy2 :: "'fs \<Rightarrow> string \<Rightarrow> string \<Rightarrow> 'fs \<times> string option"

section \<open>The organizer\<close>

definition extensions :: "string list" where
  "extensions =
     [''.aif'', ''.aiff'', ''.ape'', ''.flac'', ''.m4a'', ''.m4b'', ''.m4r'', ''.mp2'',
      ''.mp3'', ''.mp4'', ''.mpc'', ''.ogg'', ''.opus'', ''.wav'', ''.wma'']"

definition artist_values :: "string list" where
  "artist_values = [copyright # ''art'', ''artist'', ''author'', ''tpe1'']"

definition album_values :: "string list" where
  "album_values = [copyright # ''alb'', ''album'', ''talb'']"

definition exists_message :: string where
  "exists_message = ''File already exists in the destination folder''"

text \<open>The path list of \<open>run\<close>: one recursive glob for each extension, in order.\<close>

definition discover :: "'fs os \<Rightarrow> 'fs \<Rightarrow> string \<Rightarrow> string list" where
  "discover os fs selected_music_folder_path =
     concat (map (\<lambda>extension. glob os fs selected_music_folder_path (''**/*'' @ extension))
                 extensions)"

text \<open>\<open>for key, value in metadata.items(): metadata_dict[key] = value\<close>\<close>

fun fill_dict :: "tags \<Rightarrow> tags \<Rightarrow> tags" where
  "fill_dict [] metadata_dict = metadata_dict"
| "fill_dict ((key, val) # items) metadata_dict =
     fill_dict items (AList.update key val metadata_dict)"

text \<open>The loop that looks for the artist and album values, on the pair of its two variables.\<close>

fun scan_tags :: "tags \<Rightarrow> tagval \<times> tagval \<Rightarrow> tagval \<times> tagval" where
  "scan_tags [] (artist_data, album_data) = (artist_data, album_data)"
| "scan_tags ((key, val) # items) (artist_data, album_data) =
     (let lowercase_key = py_lower key
      in if lowercase_key \<in> set artist_values then scan_tags items (val, album_data)
         else if lowercase_key \<in> set album_values then scan_tags items (artist_data, val)
         else scan_tags items (artist_data, album_data))"

text \<open>\<open>sep.join(texts)\<close>\<close>

fun py_join :: "string \<Rightarrow> string list \<Rightarrow> string" where
  "py_join sep [] = []"
| "py_join sep [t] = t"
| "py_join sep (t # u # ts) = t @ sep @ py_join sep (u # ts)"

text \<open>\<open>x == s\<close> for a \<open>str\<close> \<open>s\<close>: a list is never equal to a \<open>str\<close>.\<close>

fun py_eq_str :: "tagval \<Rightarrow> string \<Rightarrow> bool" where
  "py_eq_str (VStr t) s = (t = s)"
| "py_eq_str (VSeq xs) s = False"
| "py_eq_str (VText ts) s = (py_join [CHR 0x00] ts = s)"

text \<open>
  \<open>x[0]\<close>: the first character of a string, the first element of a list, the first text
  of a text object.
\<close>

fun index0 :: "tagval \<Rightarrow> string + elem" where
  "index0 (VStr []) = Inl ''string index out of range''"
| "index0 (VStr (c # cs)) = Inr (EStr [c])"
| "index0 (VSeq []) = Inl ''list index out of range''"
| "index0 (VSeq (e # es)) = Inr e"
| "index0 (VText []) = Inl ''list index out of range''"
| "index0 (VText (t # ts)) = Inr (EStr t)"

text \<open>\<open>str(x[0]) if isinstance(x[0], ASFUnicodeAttribute) else x[0]\<close>\<close>

definition first_text :: "tagval \<Rightarrow> string + elem" where
  "first_text x =
     (case index0 x of
        Inl e \<Rightarrow> Inl e
      | Inr (EAsf s) \<Rightarrow> Inr (EStr s)
      | Inr other \<Rightarrow> Inr other)"

definition attribute_error :: "string \<Rightarrow> string \<Rightarrow> string" where
  "attribute_error type_name attr =
     [squote] @ type_name @ [squote] @ '' object has no attribute '' @ [squote] @ attr @ [squote]"

text \<open>
  \<open>self.clean_filename(x)\<close> on what \<open>first_text\<close> gave: a value that is not a \<open>str\<close> fails
  at the first method called on it.
\<close>

fun clean_value :: "bool \<Rightarrow> elem \<Rightarrow> string + string" where
  "clean_value remove_illegal_chars (EStr s) = Inr (clean_filename remove_illegal_chars s)"
| "clean_value remove_illegal_chars (EAsf s) =
     Inl (attribute_error ''ASFUnicodeAttribute''
            (if remove_illegal_chars then ''translate'' else ''strip''))"
| "clean_value remove_illegal_chars (EOther type_name) =
     Inl (attribute_error type_name (if remove_illegal_chars then ''translate'' else ''strip''))"

definition handle_existing_file :: "string \<Rightarrow> string \<Rightarrow> string \<Rightarrow> file_info" where
  "handle_existing_file file_name new_location path_in_str =
     [(''file_name'', PStr file_name),
      (''new_location'', PStr new_location),
      (''path_in_str'', PStr path_in_str),
      (''error'', PStr exists_message)]"

definition create_error_info ::
    "string \<Rightarrow> tagval \<Rightarrow> tagval \<Rightarrow> tags \<Rightarrow> string \<Rightarrow> file_info" where
  "create_error_info file_name artist_data album_data metadata_dict error =
     [(''file_name'', PStr file_name),
      (''artist_found'', PVal artist_data),
      (''album_found'', PVal album_data),
      (''metadata_dict'', PDict metadata_dict),
      (''error'', PStr error)]"

text \<open>
  \<open>_copy_file\<close>: the state the attempt leaves and, when it raises, the text of the
  \<open>OSError\<close> that wraps whatever went wrong.
\<close>

definition copy_file :: "'fs os \<Rightarrow> 'fs \<Rightarrow> string \<Rightarrow> string \<Rightarrow> bool \<Rightarrow> 'fs \<times> string option" where
  "copy_file os fs source_path destination_path create_dirs =
     (let (fs1, made) = (if create_dirs then mkdir_parent os fs destination_path else (fs, None));
          (fs2, raised) =
            (case made of
               Some e \<Rightarrow> (fs1, Some e)
             | None \<Rightarrow>
                 (case path_exists os fs1 source_path of
                    Inl e \<Rightarrow> (fs1, Some e)
                  | Inr False \<Rightarrow> (fs1, Some (''Source file not found: '' @ source_path))
                  | Inr True \<Rightarrow>
                 if \<not> access_R_OK os fs1 source_path
                 then (fs1, Some (''Cannot read source file: '' @ source_path))
                 else
                 (case path_exists os fs1 destination_path of
                    Inl e \<Rightarrow> (fs1, Some e)
                  | Inr True \<Rightarrow>
                      (fs1, Some (''Destination file already exists: '' @ destination_path))
                  | Inr False \<Rightarrow>
                 (case copy2 os fs1 source_path destination_path of
                    (fs', Some e) \<Rightarrow> (fs', Some e)
                  | (fs', None) \<Rightarrow>
                 (case path_exists os fs' destination_path of
                    Inl e \<Rightarrow> (fs', Some e)
                  | Inr False \<Rightarrow> (fs', Some (''File copy failed: '' @ destination_path))
                  | Inr True \<Rightarrow> (fs', None))))))
      in (fs2, map_option (\<lambda>e. ''Copy failed: '' @ e) raised))"

text \<open>
  The \<open>try\<close> block of one file up to the new location: the values of \<open>artist_data\<close>,
  \<open>album_data\<close> and \<open>metadata_dict\<close> when it is left, and the new location or the text
  of the exception raised before it.
\<close>

definition plan ::
    "'fs os \<Rightarrow> bool \<Rightarrow> string \<Rightarrow> 'fs \<Rightarrow> string \<Rightarrow> tagval \<times> tagval \<times> tags \<times> (string + string)" where
  "plan os remove_illegal_chars selected_destination_folder_path fs path_in_str =
     (case mutagen_File os fs path_in_str of
        ReadFails e \<Rightarrow> (VStr [], VStr [], [], Inl e)
      | NoFile \<Rightarrow> (VStr [], VStr [], [], Inl (attribute_error ''NoneType'' ''items''))
      | Tags items \<Rightarrow>
          (let metadata_dict = fill_dict items [];
               (artist_data, album_data) = scan_tags items (VStr [], VStr [])
           in (artist_data, album_data, metadata_dict,
               if py_eq_str artist_data [] \<or> py_eq_str album_data []
               then Inl ''Artist or album data not found''
               else (case first_text artist_data of
                  Inl e \<Rightarrow> Inl e
                | Inr artist0 \<Rightarrow>
               (case first_text album_data of
                  Inl e \<Rightarrow> Inl e
                | Inr album0 \<Rightarrow>
               (case clean_value remove_illegal_chars artist0 of
                  Inl e \<Rightarrow> Inl e
                | Inr artist \<Rightarrow>
               (case clean_value remove_illegal_chars album0 of
                  Inl e \<Rightarrow> Inl e
                | Inr album \<Rightarrow>
                    Inr (selected_destination_folder_path @ ''/'' @ artist @ ''/'' @ album))))))))"

text \<open>How the \<open>try\<close> block of one file ends.\<close>

datatype try_result = Raised string | Existing file_info | Copied

definition try_block ::
    "'fs os \<Rightarrow> bool \<Rightarrow> string \<Rightarrow> 'fs \<Rightarrow> string \<Rightarrow> string \<Rightarrow> 'fs \<times> try_result" where
  "try_block os remove_illegal_chars selected_destination_folder_path fs path_in_str file_name =
     (case snd (snd (snd (plan os remove_illegal_chars selected_destination_folder_path fs
                            path_in_str))) of
        Inl e \<Rightarrow> (fs, Raised e)
      | Inr new_location \<Rightarrow>
          (case path_exists os fs (new_location @ ''/'' @ file_name) of
             Inl e \<Rightarrow> (fs, Raised e)
           | Inr True \<Rightarrow>
               (fs, Existing (handle_existing_file file_name new_location path_in_str))
           | Inr False \<Rightarrow>
               (case copy_file os fs path_in_str (new_location @ ''/'' @ file_name) True of
                  (fs', Some e) \<Rightarrow> (fs', Raised e)
                | (fs', None) \<Rightarrow> (fs', Copied))))"

datatype event =
    NumberSongs nat
  | MusicProgress int
  | KillThread string
  | CustomDialog string
  | OrganizeFinish "file_info list" "file_info list"

text \<open>
  The variables of \<open>run\<close> that outlive one file: the file system, the two lists of
  \<open>recall_files\<close>, the counter \<open>i\<close> and the signals emitted so far.
\<close>

record 'fs run_state =
  files :: 'fs
  error_files :: "file_info list"
  replace_skip_files :: "file_info list"
  progress_i :: nat
  signals :: "event list"

text \<open>
  \<open>str(path).replace("\\", "/")\<close> and \<open>path_in_str.split("/")[-1]\<close>, the first two
  assignments of the loop body.
\<close>

definition path_in_str_of :: "string \<Rightarrow> string" where
  "path_in_str_of path = py_replace [backslash] ''/'' path"

definition file_name_of :: "string \<Rightarrow> string" where
  "file_name_of path = last (py_split (CHR ''/'') (path_in_str_of path))"

text \<open>The test of the \<open>finally\<close> clause.\<close>

definition counts :: "file_info \<Rightarrow> bool" where
  "counts file_info =
     (py_not (dict_get file_info ''error'')
      \<or> dict_get file_info ''error'' \<noteq> Some (PStr exists_message))"

text \<open>One turn of the loop over \<open>pathlist\<close>; \<open>n_songs\<close> is \<open>len(pathlist)\<close>.\<close>

definition process_file ::
    "'fs os \<Rightarrow> bool \<Rightarrow> string \<Rightarrow> nat \<Rightarrow> string \<Rightarrow> 'fs run_state \<Rightarrow> 'fs run_state" where
  "process_file os remove_illegal_chars selected_destination_folder_path n_songs path st =
     (let path_in_str = path_in_str_of path;
          file_name = file_name_of path;
          (artist_data, album_data, metadata_dict, planned) =
            plan os remove_illegal_chars selected_destination_folder_path (files st) path_in_str;
          (fs', ended) =
            try_block os remove_illegal_chars selected_destination_folder_path (files st)
              path_in_str file_name;
          file_info =
            (case ended of
               Raised e \<Rightarrow> create_error_info file_name artist_data album_data metadata_dict e
             | Existing info \<Rightarrow> info
             | Copied \<Rightarrow> []);
          st1 =
            (case ended of
               Raised e \<Rightarrow> st\<lparr>files := fs', error_files := error_files st @ [file_info]\<rparr>
             | Existing info \<Rightarrow>
                 st\<lparr>files := fs', replace_skip_files := replace_skip_files st @ [file_info]\<rparr>
             | Copied \<Rightarrow> st\<lparr>files := fs'\<rparr>)
      in if counts file_info
         then st1\<lparr>progress_i := progress_i st1 + 1,
                  signals := signals st1
                    @ [MusicProgress (progress_percent (progress_i st1 + 1) n_songs)]\<rparr>
         else st1)"

fun organize_loop ::
    "'fs os \<Rightarrow> bool \<Rightarrow> string \<Rightarrow> nat \<Rightarrow> string list \<Rightarrow> 'fs run_state \<Rightarrow> 'fs run_state" where
  "organize_loop os remove_illegal_chars dest n_songs [] st = st"
| "organize_loop os remove_illegal_chars dest n_songs (path # pathlist) st =
     organize_loop os remove_illegal_chars dest n_songs pathlist
       (process_file os remove_illegal_chars dest n_songs path st)"

text \<open>
  \<open>OrganizeThread.run\<close>: the two folders of \<open>info\<close> and the setting read by
  \<open>load_settings\<close> are arguments; the result is the file system left behind and the
  signals in the order of their emission.
\<close>

definition run ::
    "'fs os \<Rightarrow> string \<Rightarrow> string \<Rightarrow> bool \<Rightarrow> 'fs \<Rightarrow> 'fs \<times> event list" where
  "run os selected_music_folder_path selected_destination_folder_path remove_illegal_chars fs =
     (let pathlist = discover os fs selected_music_folder_path;
          total_number_of_songs = length pathlist;
          emitted = [NumberSongs total_number_of_songs]
      in if total_number_of_songs \<noteq> 0
         then (let st = organize_loop os remove_illegal_chars selected_destination_folder_path
                          total_number_of_songs pathlist
                          \<lparr>files = fs, error_files = [], replace_skip_files = [],
                           progress_i = 0, signals = emitted\<rparr>
               in (files st,
                   signals st @ [OrganizeFinish (error_files st) (replace_skip_files st)]))
         else (fs, emitted @ [CustomDialog ''No songs were found in the selected folder.'',
                              KillThread ''organize'']))"

definition progress_values :: "event list \<Rightarrow> int list" where
  "progress_values evs = concat (map (\<lambda>e. case e of MusicProgress p \<Rightarrow> [p] | _ \<Rightarrow> []) evs)"

section \<open>Notions used in the statements\<close>


text \<open>Whether some key of the tags, lower-cased, is one of the aliases.\<close>

definition has_alias :: "string list \<Rightarrow> tags \<Rightarrow> bool" where
  "has_alias aliases items = list_ex (\<lambda>(key, val). py_lower key \<in> set aliases) items"

text \<open>
  The identity resolver in the words of the specification: the value of the first key, in
  iteration order, that is an alias of the class; \<open>unresolved\<close> when there is none.
\<close>

definition first_match :: "string list \<Rightarrow> tags \<Rightarrow> tagval \<Rightarrow> tagval" where
  "first_match aliases items unresolved =
     (case find (\<lambda>(key, val). py_lower key \<in> set aliases) items of
        None \<Rightarrow> unresolved
      | Some (key, val) \<Rightarrow> val)"

text \<open>The same with the last such key.\<close>

definition last_match :: "string list \<Rightarrow> tags \<Rightarrow> tagval \<Rightarrow> tagval" where
  "last_match aliases items unresolved = first_match aliases (rev items) unresolved"

text \<open>
  The percentage in the words of the specification, \<open>round(processed / total * 100)\<close>,
  on the exact quotient.
\<close>

definition spec_percent :: "nat \<Rightarrow> nat \<Rightarrow> int" where
  "spec_percent processed n = round (rat_of_nat processed / rat_of_nat n * 100)"

text \<open>The files the counter \<open>i\<close> has passed over: the records that fail the test of \<open>finally\<close>.\<close>

definition uncounted :: "'fs run_state \<Rightarrow> nat" where
  "uncounted st =
     length (replace_skip_files st) + length (filter (\<lambda>info. \<not> counts info) (error_files st))"

text \<open>What the sanitizer removes before it strips, and the strings it leaves alone.\<close>

definition removed_part :: "string \<Rightarrow> string" where
  "removed_part text =
     py_replace ''...'' ''''
       (py_replace [squote] ''''
         (py_replace [dquote] ''''
           (py_replace [backslash] ''''
             (py_replace ''/'' ''''
               (translate_delete '':*?<>|'' text)))))"

definition legal :: "string \<Rightarrow> bool" where
  "legal s = (set s \<inter> set ('':*?<>|/'' @ [backslash, dquote, squote]) = {}
              \<and> \<not> sublist ''...'' s)"

section \<open>A small operating system for concrete runs\<close>

text \<open>
  The state is the list of the paths that exist. Every glob for \<open>.mp3\<close> finds the paths
  \<open>found\<close>, the tags of a path are what \<open>reader\<close> says, making directories and reading
  always succeed, and a copy adds its destination.
\<close>

definition listing_os :: "string list \<Rightarrow> (string \<Rightarrow> read_result) \<Rightarrow> (string list) os" where
  "listing_os found reader =
     \<lparr>glob = (\<lambda>fs root pattern. if pattern = ''**/*.mp3'' then found else []),
      mutagen_File = (\<lambda>fs path. reader path),
      path_exists = (\<lambda>fs path. Inr (path \<in> set fs)),
      mkdir_parent = (\<lambda>fs path. (fs, None)),
      access_R_OK = (\<lambda>fs path. True),
      copy2 = (\<lambda>fs src dst. (dst # fs, None))\<rparr>"

definition example_reader :: "string \<Rightarrow> read_result" where
  "example_reader path =
     (if path = ''/music/a.mp3'' \<or> path = ''/music/b.mp3''
      then Tags [(''ARTIST'', VSeq [EStr ''Abba'']), (''ALBUM'', VSeq [EStr ''Arrival''])]
      else if path = ''/music/c.mp3''
      then Tags [(''artist'', VSeq [EStr ''Abba''])]
      else if path = ''/music/d.mp3''
      then Tags [(''artist'', VSeq []), (''album'', VSeq [EStr ''Arrival''])]
      else ReadFails ''unreadable'')"


definition example_fs :: "string list" where
  "example_fs =
     [''/music/a.mp3'', ''/music/b.mp3'', ''/music/c.mp3'', ''/music/d.mp3'',
      ''/dest/Abba/Arrival/b.mp3'']"

definition start_state :: "string list run_state" where
  "start_state =
     \<lparr>files = example_fs, error_files = [], replace_skip_files = [], progress_i = 0,
      signals = [NumberSongs 3]\<rparr>"

section \<open>The sanitizer: lemmas\<close>

lemma py_replace_char: "py_replace [d] [] s = filter (\<lambda>c. c \<noteq> d) s"
  by (induction s) auto

lemma py_replace_absent: "\<not> sublist old s \<Longrightarrow> py_replace old new s = s"
proof (induction s)
  case Nil
  then show ?case by simp
next
  case (Cons c cs)
  have "\<not> prefix old (c # cs)" using Cons.prems prefix_imp_sublist by blast
  moreover have "\<not> sublist old cs" using Cons.prems by (auto simp: sublist_Cons_right)
  ultimately show ?case using Cons.IH by simp
qed

lemma set_py_replace_nil: "set (py_replace old [] s) \<subseteq> set s"
proof (induction old "[] :: string" s rule: py_replace.induct)
  case (1 old)
  then show ?case by simp
next
  case (2 old c cs)
  then show ?case
    by (auto dest: in_set_dropD)
qed

lemma replace_hit:
  "old \<noteq> [] \<Longrightarrow> prefix old (c # cs) \<Longrightarrow>
     py_replace old new (c # cs) = new @ py_replace old new (drop (length old - 1) cs)"
  by simp

lemma replace_miss:
  "\<not> prefix old (c # cs) \<Longrightarrow> py_replace old new (c # cs) = c # py_replace old new cs"
  by simp

lemma dots_hit:
  assumes "prefix ''...'' (c # cs)"
  shows "py_replace ''...'' [] (c # cs) = py_replace ''...'' [] (drop 2 cs)"
proof -
  have "length ''...'' - 1 = (2::nat)" by simp
  with replace_hit [OF _ assms, of "[]"] show ?thesis
    by (simp del: py_replace.simps add: numeral_2_eq_2)
qed

lemma dots_miss:
  "\<not> prefix ''...'' (c # cs) \<Longrightarrow> py_replace ''...'' [] (c # cs) = c # py_replace ''...'' [] cs"
  by (rule replace_miss)

lemma dots_head1:
  assumes "py_replace ''...'' [] s = CHR ''.'' # t"
  shows "\<exists>s'. s = CHR ''.'' # s'"
proof (cases s)
  case Nil
  with assms show ?thesis by simp
next
  case (Cons c cs)
  show ?thesis
  proof (cases "prefix ''...'' (c # cs)")
    case True
    then show ?thesis using Cons by (auto simp: prefix_def)
  next
    case False
    from assms Cons dots_miss [OF False] have "c = CHR ''.''"
      by (simp del: py_replace.simps)
    with Cons show ?thesis by simp
  qed
qed

lemma dots_head2:
  assumes "py_replace ''...'' [] s = CHR ''.'' # CHR ''.'' # t"
  shows "\<exists>s'. s = CHR ''.'' # CHR ''.'' # s'"
proof (cases s)
  case Nil
  with assms show ?thesis by simp
next
  case (Cons c cs)
  show ?thesis
  proof (cases "prefix ''...'' (c # cs)")
    case True
    then show ?thesis using Cons by (auto simp: prefix_def)
  next
    case False
    from assms Cons dots_miss [OF False]
    have "c = CHR ''.''" and "py_replace ''...'' [] cs = CHR ''.'' # t"
      by (simp_all del: py_replace.simps)
    with dots_head1 obtain s' where "cs = CHR ''.'' # s'" by blast
    with \<open>c = CHR ''.''\<close> Cons show ?thesis by simp
  qed
qed

lemma dots_no_prefix: "\<not> prefix ''...'' (py_replace ''...'' [] s)"
proof (induction s rule: length_induct)
  case (1 s)
  show ?case
  proof (cases s)
    case Nil
    then show ?thesis by simp
  next
    case (Cons c cs)
    show ?thesis
    proof (cases "prefix ''...'' (c # cs)")
      case True
      have "length (drop 2 cs) < length s" using Cons by simp
      with 1 have "\<not> prefix ''...'' (py_replace ''...'' [] (drop 2 cs))" by blast
      then show ?thesis unfolding Cons dots_hit [OF True] .
    next
      case False
      show ?thesis
      proof
        assume "prefix ''...'' (py_replace ''...'' [] s)"
        then have "prefix ''...'' (c # py_replace ''...'' [] cs)"
          unfolding Cons dots_miss [OF False] .
        then obtain t where c: "c = CHR ''.''"
          and r: "py_replace ''...'' [] cs = CHR ''.'' # CHR ''.'' # t"
          by (auto simp: prefix_def)
        from dots_head2 [OF r] obtain s' where "cs = CHR ''.'' # CHR ''.'' # s'" by blast
        with c False show False by simp
      qed
    qed
  qed
qed

lemma dots_removed: "\<not> sublist ''...'' (py_replace ''...'' [] s)"
proof (induction s rule: length_induct)
  case (1 s)
  show ?case
  proof (cases s)
    case Nil
    then show ?thesis by simp
  next
    case (Cons c cs)
    show ?thesis
    proof (cases "prefix ''...'' (c # cs)")
      case True
      have "length (drop 2 cs) < length s" using Cons by simp
      with 1 have "\<not> sublist ''...'' (py_replace ''...'' [] (drop 2 cs))" by blast
      then show ?thesis unfolding Cons dots_hit [OF True] .
    next
      case False
      have "length cs < length s" using Cons by simp
      with 1 have ih: "\<not> sublist ''...'' (py_replace ''...'' [] cs)" by blast
      have "\<not> prefix ''...'' (py_replace ''...'' [] (c # cs))" by (rule dots_no_prefix)
      then have "\<not> prefix ''...'' (c # py_replace ''...'' [] cs)"
        unfolding dots_miss [OF False] .
      with ih have "\<not> sublist ''...'' (c # py_replace ''...'' [] cs)"
        unfolding sublist_Cons_right by blast
      then show ?thesis unfolding Cons dots_miss [OF False] .
    qed
  qed
qed

lemma py_strip_sublist: "sublist (py_strip s) s"
proof -
  have "suffix (dropWhile is_space (rev (dropWhile is_space s))) (rev (dropWhile is_space s))"
    by (rule suffix_dropWhile)
  then have "prefix (py_strip s) (dropWhile is_space s)"
    by (simp add: py_strip_def suffix_to_prefix)
  moreover have "suffix (dropWhile is_space s) s" by (rule suffix_dropWhile)
  ultimately show ?thesis
    by (meson prefix_imp_sublist suffix_imp_sublist sublist_order.order_trans)
qed

lemma py_strip_idem: "py_strip (py_strip s) = py_strip s"
proof -
  define t where "t = dropWhile is_space s"
  define u where "u = dropWhile is_space (rev t)"
  have s: "py_strip s = rev u" by (simp add: py_strip_def t_def u_def)
  have a: "dropWhile is_space (rev u) = rev u"
  proof (cases "rev u")
    case Nil
    then show ?thesis by simp
  next
    case (Cons x xs)
    have "prefix (rev u) t" using suffix_dropWhile [of is_space "rev t"]
      by (simp add: u_def suffix_to_prefix)
    with Cons obtain ts where t: "t = x # ts" by (auto simp: prefix_def)
    have "t \<noteq> []" using t by simp
    then have "\<not> is_space (hd t)" unfolding t_def by (rule hd_dropWhile)
    with t have "\<not> is_space x" by simp
    with Cons show ?thesis by simp
  qed
  have b: "dropWhile is_space u = u" by (simp add: u_def)
  have "py_strip (rev u) = rev (dropWhile is_space (rev (dropWhile is_space (rev u))))"
    by (simp only: py_strip_def)
  also have "\<dots> = rev u" by (simp only: a rev_rev_ident b)
  finally show ?thesis by (simp only: s)
qed

lemma legal_removed_part: "legal (removed_part s)"
proof -
  have "set (removed_part s) \<subseteq> set (filter (\<lambda>c. c \<noteq> squote) (filter (\<lambda>c. c \<noteq> dquote)
    (filter (\<lambda>c. c \<noteq> backslash) (filter (\<lambda>c. c \<noteq> CHR ''/'')
      (filter (\<lambda>c. c \<notin> set '':*?<>|'') s)))))"
    unfolding removed_part_def translate_delete_def py_replace_char [symmetric]
    by (rule set_py_replace_nil)
  then have "set (removed_part s) \<inter> set ('':*?<>|/'' @ [backslash, dquote, squote]) = {}"
    by auto
  moreover have "\<not> sublist ''...'' (removed_part s)"
    unfolding removed_part_def by (rule dots_removed)
  ultimately show ?thesis unfolding legal_def by blast
qed

lemma legal_fixed: "legal s \<Longrightarrow> removed_part s = s"
proof -
  assume l: "legal s"
  then have f: "translate_delete '':*?<>|'' s = s"
    unfolding translate_delete_def legal_def by (auto simp: filter_id_conv)
  from l have "filter (\<lambda>c. c \<noteq> CHR ''/'') s = s" "filter (\<lambda>c. c \<noteq> backslash) s = s"
    "filter (\<lambda>c. c \<noteq> dquote) s = s" "filter (\<lambda>c. c \<noteq> squote) s = s"
    unfolding legal_def by (auto simp: filter_id_conv)
  moreover from l have "py_replace ''...'' [] s = s"
    unfolding legal_def by (simp add: py_replace_absent)
  ultimately show ?thesis
    unfolding removed_part_def f py_replace_char by simp
qed

lemma legal_sublist: "sublist t s \<Longrightarrow> legal s \<Longrightarrow> legal t"
  unfolding legal_def
  by (meson disjoint_iff set_mono_sublist subsetD sublist_order.order_trans)

section \<open>Progress arithmetic: lemmas\<close>

lemma rhe_cases: "round_half_even x = \<lfloor>x\<rfloor> \<or> round_half_even x = \<lfloor>x\<rfloor> + 1"
  by (simp add: round_half_even_def Let_def)

lemma rhe_lower: "of_int n \<le> x \<Longrightarrow> n \<le> round_half_even x"
proof -
  assume "of_int n \<le> x"
  then have "n \<le> \<lfloor>x\<rfloor>" by (simp add: le_floor_iff)
  with rhe_cases [of x] show ?thesis by linarith
qed

lemma rhe_upper: "x \<le> of_int n \<Longrightarrow> round_half_even x \<le> n"
proof (cases "x = of_int n")
  case True
  then show ?thesis by (simp add: round_half_even_def)
next
  case False
  assume "x \<le> of_int n"
  with False have "x < of_int n" by simp
  then have "\<lfloor>x\<rfloor> < n" by (simp add: floor_less_iff)
  with rhe_cases [of x] show ?thesis by linarith
qed

lemma rhe_mono: "x \<le> y \<Longrightarrow> round_half_even x \<le> round_half_even y"
proof -
  assume xy: "x \<le> y"
  then have f: "\<lfloor>x\<rfloor> \<le> \<lfloor>y\<rfloor>" by (rule floor_mono)
  show ?thesis
  proof (cases "\<lfloor>x\<rfloor> = \<lfloor>y\<rfloor>")
    case True
    with xy show ?thesis by (auto simp: round_half_even_def Let_def)
  next
    case False
    with f have "\<lfloor>x\<rfloor> + 1 \<le> \<lfloor>y\<rfloor>" by simp
    moreover have "\<lfloor>y\<rfloor> \<le> round_half_even y" by (rule rhe_lower) simp
    ultimately show ?thesis using rhe_cases [of x] by linarith
  qed
qed

lemma ilog2_bounds:
  assumes "0 < x"
  shows "2 powi (ilog2 x) \<le> x" and "x < 2 powi (ilog2 x + 1)"
proof -
  obtain a b where q: "quotient_of x = (a, b)" by (cases "quotient_of x")
  then have b: "0 < b" by (rule quotient_of_denom_pos)
  from q have x: "x = of_int a / of_int b" by (rule quotient_of_div)
  with assms b have a: "0 < a" by (simp add: zero_less_divide_iff)
  define k where "k = bitlen a - bitlen b"
  have la: "1 \<le> bitlen a" and lb: "1 \<le> bitlen b" using a b by (auto simp: bitlen_alt_def)
  have a1: "(2::rat) powi (bitlen a - 1) \<le> of_int a" and a2: "of_int a < (2::rat) powi bitlen a"
  proof -
    from bitlen_bounds [OF a] have "2 ^ nat (bitlen a - 1) \<le> a" "a < 2 ^ nat (bitlen a)" by auto
    then have "(of_int (2 ^ nat (bitlen a - 1)) :: rat) \<le> of_int a" "(of_int a :: rat) < of_int (2 ^ nat (bitlen a))"
      by (simp_all only: of_int_le_iff of_int_less_iff)
    then show "(2::rat) powi (bitlen a - 1) \<le> of_int a" "of_int a < (2::rat) powi bitlen a"
      using la by (simp_all add: power_int_def)
  qed
  have b1: "(2::rat) powi (bitlen b - 1) \<le> of_int b" and b2: "of_int b < (2::rat) powi bitlen b"
  proof -
    from bitlen_bounds [OF b] have "2 ^ nat (bitlen b - 1) \<le> b" "b < 2 ^ nat (bitlen b)" by auto
    then have "(of_int (2 ^ nat (bitlen b - 1)) :: rat) \<le> of_int b" "(of_int b :: rat) < of_int (2 ^ nat (bitlen b))"
      by (simp_all only: of_int_le_iff of_int_less_iff)
    then show "(2::rat) powi (bitlen b - 1) \<le> of_int b" "of_int b < (2::rat) powi bitlen b"
      using lb by (simp_all add: power_int_def)
  qed
  have bpos: "0 < (of_int b :: rat)" using b by simp
  have lo: "2 powi (k - 1) \<le> x"
  proof -
    have "(2::rat) powi (k - 1) * of_int b \<le> 2 powi (k - 1) * 2 powi bitlen b"
      using b2 by (intro mult_left_mono) auto
    also have "\<dots> = 2 powi (bitlen a - 1)"
      by (simp add: k_def power_int_add [symmetric])
    also have "\<dots> \<le> of_int a" by (rule a1)
    finally show ?thesis using bpos by (simp add: x pos_le_divide_eq)
  qed
  have hi: "x < 2 powi (k + 1)"
  proof -
    have "of_int a < (2::rat) powi bitlen a" by (rule a2)
    also have "\<dots> = 2 powi (k + 1) * 2 powi (bitlen b - 1)"
      by (simp add: k_def power_int_add [symmetric])
    also have "\<dots> \<le> 2 powi (k + 1) * of_int b"
      using b1 by (intro mult_left_mono) auto
    finally show ?thesis using bpos by (simp add: x pos_divide_less_eq)
  qed
  have i: "ilog2 x = (if 2 powi k \<le> x then k else k - 1)"
    by (simp add: ilog2_def q k_def)
  show "2 powi (ilog2 x) \<le> x" using lo by (simp add: i)
  show "x < 2 powi (ilog2 x + 1)" using hi by (auto simp: i)
qed

lemma ilog2_mono:
  assumes "0 < x" "x \<le> y"
  shows "ilog2 x \<le> ilog2 y"
proof (rule ccontr)
  assume "\<not> ilog2 x \<le> ilog2 y"
  then have "ilog2 y + 1 \<le> ilog2 x" by simp
  then have "(2::rat) powi (ilog2 y + 1) \<le> 2 powi (ilog2 x)"
    by (rule power_int_increasing) simp
  also have "\<dots> \<le> x" using assms(1) by (rule ilog2_bounds)
  also note assms(2)
  also have "y < 2 powi (ilog2 y + 1)" using assms by (intro ilog2_bounds) simp
  finally show False by simp
qed

lemma nearest_double_pos:
  "0 < x \<Longrightarrow> nearest_double x = of_int (round_half_even (x / 2 powi dexp x)) * 2 powi dexp x"
  by (simp add: nearest_double_def dexp_def Let_def)

lemma nearest_double_upper:
  assumes "0 < x"
  shows "nearest_double x \<le> 2 powi (dexp x + 53)"
proof -
  have "x < 2 powi (ilog2 x + 1)" using assms by (rule ilog2_bounds)
  also have "\<dots> \<le> 2 powi (dexp x + 53)"
    by (rule power_int_increasing) (simp_all add: dexp_def)
  also have "\<dots> = 2 powi 53 * 2 powi dexp x"
    by (simp add: power_int_add add.commute)
  finally have "x / 2 powi dexp x \<le> of_int (2 ^ 53)"
    by (simp add: pos_divide_le_eq)
  then have "round_half_even (x / 2 powi dexp x) \<le> 2 ^ 53" by (rule rhe_upper)
  then have "(of_int (round_half_even (x / 2 powi dexp x)) :: rat) \<le> of_int (2 ^ 53)"
    by (simp only: of_int_le_iff)
  then have "rat_of_int (round_half_even (x / 2 powi dexp x)) * 2 powi dexp x
      \<le> rat_of_int (2 ^ 53) * 2 powi dexp x"
    by (rule mult_right_mono) simp
  then show ?thesis using assms
    by (simp add: nearest_double_pos power_int_add add.commute)
qed

lemma nearest_double_lower:
  assumes "0 < x" "- 1074 < dexp x"
  shows "2 powi (dexp x + 52) \<le> nearest_double x"
proof -
  from assms(2) have e: "dexp x + 52 = ilog2 x" by (simp add: dexp_def max_def split: if_splits)
  have "(2::rat) powi 52 * 2 powi dexp x = 2 powi (dexp x + 52)"
    by (simp add: power_int_add add.commute)
  also have "\<dots> \<le> x" unfolding e using assms(1) by (rule ilog2_bounds)
  finally have "of_int (2 ^ 52) \<le> x / 2 powi dexp x"
    by (simp add: pos_le_divide_eq)
  then have "2 ^ 52 \<le> round_half_even (x / 2 powi dexp x)" by (rule rhe_lower)
  then have "(of_int (2 ^ 52) :: rat) \<le> of_int (round_half_even (x / 2 powi dexp x))"
    by (simp only: of_int_le_iff)
  then have "rat_of_int (2 ^ 52) * 2 powi dexp x
      \<le> rat_of_int (round_half_even (x / 2 powi dexp x)) * 2 powi dexp x"
    by (rule mult_right_mono) simp
  then show ?thesis using assms(1)
    by (simp add: nearest_double_pos power_int_add add.commute)
qed

lemma nearest_double_nonneg: "0 \<le> x \<Longrightarrow> 0 \<le> nearest_double x"
proof (cases "x = 0")
  case True
  then show ?thesis by (simp add: nearest_double_def)
next
  case False
  assume "0 \<le> x"
  with False have x: "0 < x" by simp
  then have "0 \<le> x / 2 powi dexp x" by simp
  then have "0 \<le> round_half_even (x / 2 powi dexp x)" by (intro rhe_lower) simp
  then show ?thesis using x by (simp add: nearest_double_pos)
qed

lemma nearest_double_mono:
  assumes "0 \<le> x" "x \<le> y"
  shows "nearest_double x \<le> nearest_double y"
proof (cases "x = 0")
  case True
  with assms nearest_double_nonneg [of y] show ?thesis by (simp add: nearest_double_def)
next
  case False
  with assms have x: "0 < x" and y: "0 < y" by simp_all
  have "ilog2 x \<le> ilog2 y" using x assms(2) by (rule ilog2_mono)
  then have e: "dexp x \<le> dexp y" by (simp add: dexp_def)
  show ?thesis
  proof (cases "dexp x = dexp y")
    case True
    have "x / 2 powi dexp y \<le> y / 2 powi dexp y"
      using assms(2) by (simp add: divide_right_mono)
    then have "round_half_even (x / 2 powi dexp y) \<le> round_half_even (y / 2 powi dexp y)"
      by (rule rhe_mono)
    then have "(of_int (round_half_even (x / 2 powi dexp y)) :: rat)
        \<le> of_int (round_half_even (y / 2 powi dexp y))"
      by (simp only: of_int_le_iff)
    then have "rat_of_int (round_half_even (x / 2 powi dexp y)) * 2 powi dexp y
        \<le> rat_of_int (round_half_even (y / 2 powi dexp y)) * 2 powi dexp y"
      by (rule mult_right_mono) simp
    then show ?thesis using x y True by (simp add: nearest_double_pos)
  next
    case False
    with e have lt: "dexp x + 1 \<le> dexp y" by simp
    have "- 1074 \<le> dexp x" by (simp add: dexp_def)
    with lt have "- 1074 < dexp y" by simp
    have "nearest_double x \<le> 2 powi (dexp x + 53)" using x by (rule nearest_double_upper)
    also have "\<dots> \<le> 2 powi (dexp y + 52)"
      by (rule power_int_increasing) (use lt in simp_all)
    also have "\<dots> \<le> nearest_double y"
      using y \<open>- 1074 < dexp y\<close> by (rule nearest_double_lower)
    finally show ?thesis .
  qed
qed

lemma py_int_mono: "x \<le> y \<Longrightarrow> py_int x \<le> py_int y"
proof -
  assume xy: "x \<le> y"
  have "\<lceil>x\<rceil> \<le> \<lfloor>y\<rfloor>" if "x \<le> 0" "0 \<le> y"
  proof -
    from that(1) have "\<lceil>x\<rceil> \<le> 0" by (simp add: ceiling_le_iff)
    moreover from that(2) have "0 \<le> \<lfloor>y\<rfloor>" by simp
    ultimately show ?thesis by (rule order_trans)
  qed
  with xy show ?thesis
    unfolding py_int_def by (auto intro: floor_mono ceiling_mono)
qed

lemma progress_percent_mono:
  assumes "i \<le> j"
  shows "progress_percent i n \<le> progress_percent j n"
proof -
  have "(of_nat i :: rat) / of_nat n \<le> of_nat j / of_nat n"
    using assms by (simp add: divide_right_mono)
  then have "true_div i n \<le> true_div j n"
    unfolding true_div_def by (intro nearest_double_mono) simp_all
  moreover have "0 \<le> true_div i n"
    unfolding true_div_def by (intro nearest_double_nonneg) simp
  ultimately have "float_mul (true_div i n) 100 \<le> float_mul (true_div j n) 100"
    unfolding float_mul_def by (intro nearest_double_mono) simp_all
  then show ?thesis unfolding progress_percent_def by (rule py_int_mono)
qed

lemma nearest_double_1: "nearest_double 1 = 1"
  by code_simp

lemma nearest_double_100: "nearest_double 100 = 100"
  by code_simp

lemma progress_percent_full: "0 < n \<Longrightarrow> progress_percent n n = 100"
  by (simp add: progress_percent_def true_div_def float_mul_def nearest_double_1
      nearest_double_100 py_int_def)

section \<open>One file and the loop: lemmas\<close>

lemma exists_message_nonempty: "exists_message \<noteq> []"
  by (simp add: exists_message_def)

lemma counts_empty: "counts []"
  by (simp add: counts_def dict_get_def)

lemma counts_existing: "\<not> counts (handle_existing_file file_name new_location path_in_str)"
  by (simp add: counts_def dict_get_def handle_existing_file_def PStr_def exists_message_def)

lemma counts_error:
  "counts (create_error_info file_name a b m e) \<longleftrightarrow> e \<noteq> exists_message"
  using exists_message_nonempty
  by (auto simp: counts_def dict_get_def create_error_info_def PStr_def)

lemma try_block_existing:
  assumes "try_block os flag dest fs p f = (fs', Existing info)"
  shows "fs' = fs" and "\<not> counts info"
  using assms counts_existing
  by (auto simp: try_block_def
      split: sum.splits bool.splits if_splits prod.splits option.splits)

lemma process_file_Raised:
  assumes "try_block os flag dest (files st) (path_in_str_of path) (file_name_of path) = (fs', Raised e)"
    and "plan os flag dest (files st) (path_in_str_of path) = (a, b, m, pl)"
  shows "process_file os flag dest n path st =
    (if e = exists_message
     then st\<lparr>files := fs', error_files := error_files st @ [create_error_info (file_name_of path) a b m e]\<rparr>
     else st\<lparr>files := fs', error_files := error_files st @ [create_error_info (file_name_of path) a b m e],
             progress_i := progress_i st + 1,
             signals := signals st @ [MusicProgress (progress_percent (progress_i st + 1) n)]\<rparr>)"
  using assms by (simp add: process_file_def Let_def counts_error)

lemma process_file_Existing:
  assumes "try_block os flag dest (files st) (path_in_str_of path) (file_name_of path) = (fs', Existing info)"
  shows "process_file os flag dest n path st =
    st\<lparr>replace_skip_files := replace_skip_files st @ [info]\<rparr>"
proof -
  obtain a b m pl where "plan os flag dest (files st) (path_in_str_of path) = (a, b, m, pl)"
    by (metis prod_cases4)
  with assms try_block_existing [OF assms] show ?thesis
    by (simp add: process_file_def Let_def)
qed

lemma process_file_Copied:
  assumes "try_block os flag dest (files st) (path_in_str_of path) (file_name_of path) = (fs', Copied)"
  shows "process_file os flag dest n path st =
    st\<lparr>files := fs', progress_i := progress_i st + 1,
       signals := signals st @ [MusicProgress (progress_percent (progress_i st + 1) n)]\<rparr>"
proof -
  obtain a b m pl where "plan os flag dest (files st) (path_in_str_of path) = (a, b, m, pl)"
    by (metis prod_cases4)
  with assms show ?thesis
    by (simp add: process_file_def Let_def counts_empty)
qed

lemma step_progress:
  "(progress_i (process_file os flag dest n path st) = progress_i st
      \<and> signals (process_file os flag dest n path st) = signals st)
   \<or> (progress_i (process_file os flag dest n path st) = progress_i st + 1
      \<and> signals (process_file os flag dest n path st)
          = signals st @ [MusicProgress (progress_percent (progress_i st + 1) n)])"
proof -
  obtain fs' r where t: "try_block os flag dest (files st) (path_in_str_of path) (file_name_of path) = (fs', r)"
    by (cases "try_block os flag dest (files st) (path_in_str_of path) (file_name_of path)")
  obtain a b m pl where p: "plan os flag dest (files st) (path_in_str_of path) = (a, b, m, pl)"
    by (metis prod_cases4)
  show ?thesis
  proof (cases r)
    case (Raised e)
    with t p show ?thesis by (simp add: process_file_Raised)
  next
    case (Existing info)
    with t show ?thesis by (simp add: process_file_Existing)
  next
    case Copied
    with t show ?thesis by (simp add: process_file_Copied)
  qed
qed

lemma step_uncounted:
  "progress_i (process_file os flag dest n path st) + uncounted (process_file os flag dest n path st)
     = progress_i st + uncounted st + 1"
proof -
  obtain fs' r where t: "try_block os flag dest (files st) (path_in_str_of path) (file_name_of path) = (fs', r)"
    by (cases "try_block os flag dest (files st) (path_in_str_of path) (file_name_of path)")
  obtain a b m pl where p: "plan os flag dest (files st) (path_in_str_of path) = (a, b, m, pl)"
    by (metis prod_cases4)
  show ?thesis
  proof (cases r)
    case (Raised e)
    with t p show ?thesis by (simp add: process_file_Raised uncounted_def counts_error)
  next
    case (Existing info)
    with t show ?thesis by (simp add: process_file_Existing uncounted_def)
  next
    case Copied
    with t show ?thesis by (simp add: process_file_Copied uncounted_def)
  qed
qed

lemma progress_values_append:
  "progress_values (xs @ ys) = progress_values xs @ progress_values ys"
  by (simp add: progress_values_def)

lemma progress_values_single: "progress_values [MusicProgress p] = [p]"
  by (simp add: progress_values_def)

lemma loop_progress:
  "progress_i st \<le> progress_i (organize_loop os flag dest n ps st)
   \<and> progress_values (signals (organize_loop os flag dest n ps st))
       = progress_values (signals st)
         @ map (\<lambda>k. progress_percent k n)
             [progress_i st + 1 ..< progress_i (organize_loop os flag dest n ps st) + 1]"
proof (induction ps arbitrary: st)
  case Nil
  show ?case by simp
next
  case (Cons path ps)
  define st1 where "st1 = process_file os flag dest n path st"
  define st2 where "st2 = organize_loop os flag dest n ps st1"
  have l: "organize_loop os flag dest n (path # ps) st = st2"
    by (simp add: st1_def st2_def)
  from Cons.IH [of st1] have le: "progress_i st1 \<le> progress_i st2"
    and pv: "progress_values (signals st2) = progress_values (signals st1)
        @ map (\<lambda>k. progress_percent k n) [progress_i st1 + 1 ..< progress_i st2 + 1]"
    by (simp_all add: st2_def)
  from step_progress [of os flag dest n path st]
  consider (same) "progress_i st1 = progress_i st" "signals st1 = signals st"
    | (more) "progress_i st1 = progress_i st + 1"
        "signals st1 = signals st @ [MusicProgress (progress_percent (progress_i st + 1) n)]"
    unfolding st1_def by blast
  then show ?case
  proof cases
    case same
    with le pv show ?thesis unfolding l by simp
  next
    case more
    from more(1) le have lt: "progress_i st + 1 < progress_i st2 + 1" by simp
    have "[progress_i st + 1 ..< progress_i st2 + 1]
        = (progress_i st + 1) # [progress_i st1 + 1 ..< progress_i st2 + 1]"
      using upt_conv_Cons [OF lt] more(1) by simp
    with more le pv show ?thesis unfolding l
      by (simp add: progress_values_append progress_values_single)
  qed
qed

lemma loop_uncounted:
  "progress_i (organize_loop os flag dest n ps st) + uncounted (organize_loop os flag dest n ps st)
     = progress_i st + uncounted st + length ps"
proof (induction ps arbitrary: st)
  case Nil
  show ?case by simp
next
  case (Cons path ps)
  from Cons.IH [of "process_file os flag dest n path st"]
    step_uncounted [of os flag dest n path st]
  show ?case by simp
qed

lemma sorted_percents: "sorted (map (\<lambda>k. progress_percent k n) [a ..< b])"
  by (auto simp: sorted_iff_nth_mono intro: progress_percent_mono)


lemma find_snoc:
  "find P (xs @ [x]) = (case find P xs of None \<Rightarrow> (if P x then Some x else None) | Some y \<Rightarrow> Some y)"
  by (induction xs) auto

lemma last_match_hit:
  "py_lower key \<in> set aliases \<Longrightarrow>
     last_match aliases ((key, val) # items) unresolved = last_match aliases items val"
  by (simp add: last_match_def first_match_def find_snoc split: option.splits)

lemma last_match_miss:
  "py_lower key \<notin> set aliases \<Longrightarrow>
     last_match aliases ((key, val) # items) unresolved = last_match aliases items unresolved"
  by (simp add: last_match_def first_match_def find_snoc split: option.splits)

lemma aliases_disjoint: "k \<in> set artist_values \<Longrightarrow> k \<notin> set album_values"
  by (auto simp: artist_values_def album_values_def)

lemma scan_tags_last_match:
  "scan_tags items (artist_data, album_data)
     = (last_match artist_values items artist_data, last_match album_values items album_data)"
proof (induction items arbitrary: artist_data album_data)
  case Nil
  show ?case by (simp add: last_match_def first_match_def)
next
  case (Cons kv items)
  obtain key val where kv: "kv = (key, val)" by (cases kv)
  show ?case
  proof (cases "py_lower key \<in> set artist_values")
    case True
    with aliases_disjoint have "py_lower key \<notin> set album_values" by blast
    with True Cons.IH show ?thesis
      by (simp add: kv last_match_hit last_match_miss)
  next
    case False
    with Cons.IH show ?thesis
      by (cases "py_lower key \<in> set album_values")
         (simp_all add: kv last_match_hit last_match_miss)
  qed
qed

lemma last_match_unresolved:
  "\<not> has_alias aliases items \<Longrightarrow> last_match aliases items unresolved = unresolved"
proof -
  assume "\<not> has_alias aliases items"
  then have "find (\<lambda>(key, val). py_lower key \<in> set aliases) (rev items) = None"
    by (auto simp: has_alias_def list_ex_iff find_None_iff)
  then show ?thesis by (simp add: last_match_def first_match_def)
qed

lemma scan_tags_unresolved:
  "\<not> has_alias artist_values items \<Longrightarrow> fst (scan_tags items (a, b)) = a"
  "\<not> has_alias album_values items \<Longrightarrow> snd (scan_tags items (a, b)) = b"
  by (simp_all add: scan_tags_last_match last_match_unresolved)

lemma plan_Tags:
  assumes "mutagen_File os fs p = Tags items"
    and "scan_tags items (VStr [], VStr []) = (a, b)"
  shows "plan os flag dest fs p =
    (a, b, fill_dict items [],
     if py_eq_str a [] \<or> py_eq_str b [] then Inl ''Artist or album data not found''
     else (case first_text a of
        Inl e \<Rightarrow> Inl e
      | Inr artist0 \<Rightarrow>
     (case first_text b of
        Inl e \<Rightarrow> Inl e
      | Inr album0 \<Rightarrow>
     (case clean_value flag artist0 of
        Inl e \<Rightarrow> Inl e
      | Inr artist \<Rightarrow>
     (case clean_value flag album0 of
        Inl e \<Rightarrow> Inl e
      | Inr album \<Rightarrow> Inr (dest @ ''/'' @ artist @ ''/'' @ album))))))"
  using assms by (simp add: plan_def Let_def)

lemma text_object_without_text:
  "py_eq_str (VText []) []" "py_eq_str (VText [[]]) []" "\<not> py_eq_str (VSeq xs) []"
  by simp_all

lemma empty_value_not_found:
  assumes "mutagen_File os fs p = Tags items"
    and "py_eq_str (last_match artist_values items (VStr [])) []
         \<or> py_eq_str (last_match album_values items (VStr [])) []"
  shows "snd (snd (snd (plan os flag dest fs p))) = Inl ''Artist or album data not found''"
proof -
  have "scan_tags items (VStr [], VStr [])
      = (last_match artist_values items (VStr []), last_match album_values items (VStr []))"
    by (rule scan_tags_last_match)
  from plan_Tags [OF assms(1) this, of flag dest] assms(2) show ?thesis by auto
qed

lemma process_file_plan_raises:
  assumes "plan os flag dest (files st) (path_in_str_of path) = (a, b, m, Inl e)"
    and "e \<noteq> exists_message"
  shows "process_file os flag dest n path st =
    st\<lparr>error_files := error_files st @ [create_error_info (file_name_of path) a b m e],
       progress_i := progress_i st + 1,
       signals := signals st @ [MusicProgress (progress_percent (progress_i st + 1) n)]\<rparr>"
proof -
  from assms(1) have "try_block os flag dest (files st) (path_in_str_of path) (file_name_of path)
      = (files st, Raised e)"
    by (simp add: try_block_def)
  from process_file_Raised [OF this assms(1)] assms(2) show ?thesis by simp
qed

lemma run_nonempty:
  assumes "discover os fs src \<noteq> []"
  shows "run os src dest flag fs =
    (let st = organize_loop os flag dest (length (discover os fs src)) (discover os fs src)
                \<lparr>files = fs, error_files = [], replace_skip_files = [], progress_i = 0,
                 signals = [NumberSongs (length (discover os fs src))]\<rparr>
     in (files st, signals st @ [OrganizeFinish (error_files st) (replace_skip_files st)]))"
  using assms by (simp add: run_def Let_def)

lemma run_empty:
  assumes "discover os fs src = []"
  shows "run os src dest flag fs =
    (fs, [NumberSongs 0, CustomDialog ''No songs were found in the selected folder.'',
          KillThread ''organize''])"
  using assms by (simp add: run_def Let_def)

lemma run_progress:
  fixes os :: "'fs os" and fs :: 'fs and src dest :: string and flag :: bool
  assumes "discover os fs src \<noteq> []"
  defines "st \<equiv> organize_loop os flag dest (length (discover os fs src)) (discover os fs src)
                \<lparr>files = fs, error_files = [], replace_skip_files = [], progress_i = 0,
                 signals = [NumberSongs (length (discover os fs src))]\<rparr>"
  shows "progress_values (snd (run os src dest flag fs))
    = map (\<lambda>k. progress_percent k (length (discover os fs src))) [1 ..< progress_i st + 1]"
proof -
  have "progress_values (signals st)
      = map (\<lambda>k. progress_percent k (length (discover os fs src))) [1 ..< progress_i st + 1]"
    using loop_progress [of "\<lparr>files = fs, error_files = [], replace_skip_files = [],
        progress_i = 0, signals = [NumberSongs (length (discover os fs src))]\<rparr>"
        os flag dest "length (discover os fs src)" "discover os fs src"]
    unfolding st_def [symmetric] by (simp add: progress_values_def)
  then show ?thesis
    using assms(1) unfolding run_nonempty [OF assms(1)] st_def [symmetric]
    by (simp add: Let_def progress_values_append progress_values_def)
qed

lemma copy_file_message: "copy_file os fs src dst mk = (fs', Some e) \<Longrightarrow> e \<noteq> exists_message"
  by (auto simp: copy_file_def Let_def exists_message_def
      split: prod.splits option.splits if_splits sum.splits bool.splits)

lemma first_text_message: "first_text x = Inl e \<Longrightarrow> e \<noteq> exists_message"
  by (cases x rule: index0.cases) (auto simp: first_text_def exists_message_def split: elem.splits)

lemma clean_value_message: "clean_value flag x = Inl e \<Longrightarrow> e \<noteq> exists_message"
  by (cases x) (auto simp: attribute_error_def exists_message_def squote_def)

lemma plan_message:
  assumes "plan os flag dest fs p = (a, b, m, Inl e)" and "e = exists_message"
  shows "mutagen_File os fs p = ReadFails exists_message"
proof (cases "mutagen_File os fs p")
  case (ReadFails x)
  with assms show ?thesis by (simp add: plan_def)
next
  case NoFile
  with assms show ?thesis
    by (simp add: plan_def attribute_error_def exists_message_def squote_def)
next
  case (Tags items)
  obtain a' b' where s: "scan_tags items (VStr [], VStr []) = (a', b')"
    by (cases "scan_tags items (VStr [], VStr [])")
  define X where "X = (if py_eq_str a' [] \<or> py_eq_str b' []
     then Inl ''Artist or album data not found''
     else (case first_text a' of
        Inl e \<Rightarrow> Inl e
      | Inr artist0 \<Rightarrow>
     (case first_text b' of
        Inl e \<Rightarrow> Inl e
      | Inr album0 \<Rightarrow>
     (case clean_value flag artist0 of
        Inl e \<Rightarrow> Inl e
      | Inr artist \<Rightarrow>
     (case clean_value flag album0 of
        Inl e \<Rightarrow> Inl e
      | Inr album \<Rightarrow> Inr (dest @ ''/'' @ artist @ ''/'' @ album))))))"
  have "plan os flag dest fs p = (a', b', fill_dict items [], X)"
    unfolding X_def by (rule plan_Tags [OF Tags s])
  with assms(1) have "X = Inl e" by simp
  then have "e \<noteq> exists_message"
    unfolding X_def using first_text_message clean_value_message
    by (auto simp: exists_message_def split: if_splits sum.splits)
  with assms(2) show ?thesis by simp
qed

lemma try_block_message:
  assumes "try_block os flag dest fs p f = (fs', Raised exists_message)"
  shows "mutagen_File os fs p = ReadFails exists_message
    \<or> (\<exists>new_location. path_exists os fs (new_location @ ''/'' @ f) = Inl exists_message)"
proof -
  obtain a b m pl where pl: "plan os flag dest fs p = (a, b, m, pl)"
    by (metis prod_cases4)
  show ?thesis
  proof (cases pl)
    case (Inl e)
    with assms pl have "e = exists_message" by (simp add: try_block_def)
    with pl Inl show ?thesis by (auto intro: plan_message)
  next
    case (Inr loc)
    with assms pl copy_file_message [of os fs p "loc @ ''/'' @ f" True] show ?thesis
      by (auto simp: try_block_def
          split: if_splits prod.splits option.splits sum.splits bool.splits)
  qed
qed

lemma copy_file_refuses_existing:
  assumes "mkdir_parent os fs dst = (fs1, None)"
    and "path_exists os fs1 src = Inr True" and "access_R_OK os fs1 src"
    and "path_exists os fs1 dst = Inr True"
  shows "copy_file os fs src dst True
    = (fs1, Some (''Copy failed: Destination file already exists: '' @ dst))"
  using assms by (simp add: copy_file_def)

section \<open>Concrete runs\<close>

lemma percent_1_of_3: "progress_percent (Suc 0) 3 = 33"
  by code_simp

lemma three_unreadable_run:
  "snd (run (listing_os [''/music/x.mp3'', ''/music/y.mp3'', ''/music/z.mp3''] example_reader)
         ''/music'' ''/dest'' True example_fs)
   = [NumberSongs 3, MusicProgress 33, MusicProgress 66, MusicProgress 100,
      OrganizeFinish
        [create_error_info ''x.mp3'' (VStr []) (VStr []) [] ''unreadable'',
         create_error_info ''y.mp3'' (VStr []) (VStr []) [] ''unreadable'',
         create_error_info ''z.mp3'' (VStr []) (VStr []) [] ''unreadable''] []]"
  by code_simp

lemma copied_a:
  "process_file (listing_os [] example_reader) True ''/dest'' 3 ''/music/a.mp3'' start_state
   = start_state\<lparr>files := ''/dest/Abba/Arrival/a.mp3'' # example_fs, progress_i := 1,
        signals := [NumberSongs 3, MusicProgress 33]\<rparr>"
  by code_simp

lemma percent_2_of_3: "progress_percent (Suc (Suc 0)) 3 = 66"
  by code_simp

lemma copied_a_second:
  "process_file (listing_os [] example_reader) True ''/dest'' 3 ''/music/a.mp3''
     (start_state\<lparr>progress_i := 1\<rparr>)
   = start_state\<lparr>files := ''/dest/Abba/Arrival/a.mp3'' # example_fs, progress_i := 2,
        signals := [NumberSongs 3, MusicProgress 66]\<rparr>"
  by code_simp


section \<open>The claims\<close>

text \<open>
  C1 (as amended). For every tag map, also one with two or more keys of the same alias
  class, the identity resolver keeps the value of the last matching key in iteration order:
  each later matching key of a class overwrites the value found before. A class with no
  matching key keeps the value the scan started with.
\<close>

theorem scan_tags_keeps_last:
  "scan_tags items (artist_data, album_data)
     = (last_match artist_values items artist_data, last_match album_values items album_data)"
  by (rule scan_tags_last_match)

theorem scan_tags_keeps_last_witness:
  "scan_tags [(''artist'', VSeq [EStr ''Abba'']), (''author'', VSeq [EStr ''Bjorn''])]
       (VStr [], VStr [])
     = (VSeq [EStr ''Bjorn''], VStr [])"
  using scan_tags_keeps_last
    [of "[(''artist'', VSeq [EStr ''Abba'']), (''author'', VSeq [EStr ''Bjorn''])]" "VStr []" "VStr []"]
  by (simp add: last_match_def first_match_def artist_values_def album_values_def py_lower_def
      lower_char_def copyright_def)

text \<open>
  C1 as stated fails: with the keys \<open>artist\<close> and \<open>author\<close>, in this order, the resolver
  ends with the value of \<open>author\<close>, not with the first one.
\<close>

theorem first_match_refuted:
  "fst (scan_tags [(''artist'', VSeq [EStr ''Abba'']), (''author'', VSeq [EStr ''Bjorn''])]
         (VStr [], VStr []))
     \<noteq> first_match artist_values
         [(''artist'', VSeq [EStr ''Abba'']), (''author'', VSeq [EStr ''Bjorn''])] (VStr [])"
  by (simp add: first_match_def artist_values_def album_values_def py_lower_def
      lower_char_def copyright_def)

text \<open>
  C2 (as amended). With sanitization enabled, the sanitizer turns \<open>My/Band: "Best"\<close> into
  \<open>MyBand Best\<close>: the slash, the colon and the quotes are deleted, nothing is put in
  their place.
\<close>

theorem clean_filename_my_band:
  "clean_filename True (''My/Band: '' @ [dquote] @ ''Best'' @ [dquote]) = ''MyBand Best''"
  by (simp add: clean_filename_def translate_delete_def py_strip_def is_space_def dquote_def
      squote_def backslash_def)

text \<open>C2 as stated fails: the result is not \<open>My Band Best\<close>.\<close>

theorem clean_filename_my_band_refuted:
  "clean_filename True (''My/Band: '' @ [dquote] @ ''Best'' @ [dquote]) \<noteq> ''My Band Best''"
  by (simp add: clean_filename_def translate_delete_def py_strip_def is_space_def dquote_def
      squote_def backslash_def)

text \<open>
  C3 (as amended). In every run the progress percentages are non-decreasing and there is
  one for each counted file: their number, the number of SkippedExisting records and the
  number of error records that carry the text of the collision add up to the number of
  discovered files. The last percentage is 100 when the run ends with its result and no
  file was passed over by the counter.
\<close>

theorem progress_sorted_and_full:
  "sorted (progress_values (snd (run os src dest flag fs)))
   \<and> (last (snd (run os src dest flag fs)) = OrganizeFinish errs skips
        \<longrightarrow> length (progress_values (snd (run os src dest flag fs)))
              + length skips + length (filter (\<lambda>info. \<not> counts info) errs)
            = length (discover os fs src))
   \<and> (last (snd (run os src dest flag fs)) = OrganizeFinish errs [] \<and> list_all counts errs
        \<longrightarrow> last (progress_values (snd (run os src dest flag fs))) = 100)"
proof (cases "discover os fs src = []")
  case True
  then show ?thesis by (simp add: run_empty progress_values_def)
next
  case False
  define n where "n = length (discover os fs src)"
  define st where "st = organize_loop os flag dest n (discover os fs src)
                \<lparr>files = fs, error_files = [], replace_skip_files = [], progress_i = 0,
                 signals = [NumberSongs n]\<rparr>"
  have n: "0 < n" using False by (simp add: n_def)
  have pv: "progress_values (snd (run os src dest flag fs))
      = map (\<lambda>k. progress_percent k n) [1 ..< progress_i st + 1]"
    using run_progress [OF False] by (simp add: st_def n_def)
  have l: "last (snd (run os src dest flag fs))
      = OrganizeFinish (error_files st) (replace_skip_files st)"
    unfolding run_nonempty [OF False] by (simp add: Let_def st_def n_def)
  have u: "progress_i st + uncounted st = n"
    using loop_uncounted [of os flag dest n "discover os fs src"
        "\<lparr>files = fs, error_files = [], replace_skip_files = [], progress_i = 0,
                 signals = [NumberSongs n]\<rparr>"]
    by (simp add: st_def uncounted_def n_def)
  have s: "sorted (progress_values (snd (run os src dest flag fs)))"
    unfolding pv by (rule sorted_percents)
  have c: "length (progress_values (snd (run os src dest flag fs)))
              + length skips + length (filter (\<lambda>info. \<not> counts info) errs)
            = length (discover os fs src)"
    if "last (snd (run os src dest flag fs)) = OrganizeFinish errs skips"
  proof -
    from that l have "error_files st = errs" "replace_skip_files st = skips" by simp_all
    with u show ?thesis unfolding pv by (simp add: uncounted_def n_def)
  qed
  have "last (progress_values (snd (run os src dest flag fs))) = 100"
    if "last (snd (run os src dest flag fs)) = OrganizeFinish errs []" "list_all counts errs"
  proof -
    from that l have "error_files st = errs" "replace_skip_files st = []" by simp_all
    with that(2) have "uncounted st = 0"
      by (auto simp: uncounted_def list_all_iff filter_empty_conv)
    with u have i: "progress_i st = n" by simp
    have "[1 ..< n + 1] = [1 ..< n] @ [n]" using n by (simp add: upt_Suc_append)
    then show ?thesis unfolding pv i using n by (simp add: progress_percent_full)
  qed
  with s c show ?thesis by blast
qed

theorem progress_sorted_and_full_witness:
  "sorted (progress_values (snd (run
      (listing_os [''/music/x.mp3'', ''/music/y.mp3'', ''/music/z.mp3''] example_reader)
      ''/music'' ''/dest'' True example_fs)))
   \<and> length (progress_values (snd (run
      (listing_os [''/music/x.mp3'', ''/music/y.mp3'', ''/music/z.mp3''] example_reader)
      ''/music'' ''/dest'' True example_fs))) = 3
   \<and> last (progress_values (snd (run
      (listing_os [''/music/x.mp3'', ''/music/y.mp3'', ''/music/z.mp3''] example_reader)
      ''/music'' ''/dest'' True example_fs))) = 100"
proof -
  let ?errs = "[create_error_info ''x.mp3'' (VStr []) (VStr []) [] ''unreadable'',
         create_error_info ''y.mp3'' (VStr []) (VStr []) [] ''unreadable'',
         create_error_info ''z.mp3'' (VStr []) (VStr []) [] ''unreadable'']"
  have a: "last (snd (run
      (listing_os [''/music/x.mp3'', ''/music/y.mp3'', ''/music/z.mp3''] example_reader)
      ''/music'' ''/dest'' True example_fs)) = OrganizeFinish ?errs []"
    by (simp add: three_unreadable_run)
  have b: "list_all counts ?errs"
    by (simp add: counts_error exists_message_def)
  have c: "length (filter (\<lambda>info. \<not> counts info) ?errs) = 0"
    by (simp add: counts_error exists_message_def)
  have d: "length (discover
      (listing_os [''/music/x.mp3'', ''/music/y.mp3'', ''/music/z.mp3''] example_reader)
      example_fs ''/music'') = 3"
    by code_simp
  from progress_sorted_and_full
    [of "listing_os [''/music/x.mp3'', ''/music/y.mp3'', ''/music/z.mp3''] example_reader"
        "''/music''" "''/dest''" True example_fs ?errs "[]"] a b c d
  show ?thesis by simp
qed

text \<open>
  C3 as stated fails: of two discovered files, the first is copied and the second finds its
  destination present; the only percentage emitted is 50.
\<close>

theorem progress_short_of_100:
  "length (discover (listing_os [''/music/a.mp3'', ''/music/b.mp3''] example_reader)
            example_fs ''/music'') = 2
   \<and> progress_values (snd (run (listing_os [''/music/a.mp3'', ''/music/b.mp3''] example_reader)
        ''/music'' ''/dest'' True example_fs)) = [50]
   \<and> last (progress_values (snd (run (listing_os [''/music/a.mp3'', ''/music/b.mp3''] example_reader)
        ''/music'' ''/dest'' True example_fs))) \<noteq> 100"
  by code_simp

text \<open>
  C4 (as amended). After each counted file the percentage emitted is
  \<open>int(processed / total * 100)\<close>: the quotient and the product in double precision, cut
  toward zero and not rounded to the nearest integer; \<open>processed\<close> is the counter after
  the file and \<open>total\<close> the number of discovered files.
\<close>

theorem progress_after_counted_file:
  "progress_i (process_file os flag dest n path st) = progress_i st + 1 \<Longrightarrow>
     signals (process_file os flag dest n path st)
       = signals st @ [MusicProgress (progress_percent (progress_i st + 1) n)]"
  using step_progress [of os flag dest n path st] by auto

theorem progress_after_counted_file_witness:
  "signals (process_file (listing_os [] example_reader) True ''/dest'' 3 ''/music/a.mp3''
      (start_state\<lparr>progress_i := 1\<rparr>)) = [NumberSongs 3, MusicProgress 66]"
proof -
  have "progress_i (process_file (listing_os [] example_reader) True ''/dest'' 3 ''/music/a.mp3''
      (start_state\<lparr>progress_i := 1\<rparr>)) = progress_i (start_state\<lparr>progress_i := 1\<rparr>) + 1"
    by (simp only: copied_a_second) (simp add: start_state_def)
  from progress_after_counted_file [OF this] show ?thesis
    by (simp add: start_state_def percent_2_of_3)
qed

text \<open>
  C4 as stated fails: with three files, all counted, the percentages are 33, 66 and 100,
  where rounding two thirds of 100 gives 67.
\<close>

theorem progress_not_rounded:
  "progress_values (snd (run
      (listing_os [''/music/x.mp3'', ''/music/y.mp3'', ''/music/z.mp3''] example_reader)
      ''/music'' ''/dest'' True example_fs))
   \<noteq> map (\<lambda>processed. spec_percent processed 3) [1, 2, 3]"
  by code_simp




text \<open>
  C6. The sanitizer with the flag enabled is idempotent: sanitizing a sanitized string gives
  the same string.
\<close>

theorem clean_filename_idempotent:
  "clean_filename True (clean_filename True s) = clean_filename True s"
proof -
  have c: "clean_filename True x = py_strip (removed_part x)" for x
    by (simp add: clean_filename_def removed_part_def)
  have "legal (py_strip (removed_part s))"
    using legal_sublist [OF py_strip_sublist legal_removed_part] .
  then have "removed_part (py_strip (removed_part s)) = py_strip (removed_part s)"
    by (rule legal_fixed)
  then show ?thesis by (simp only: c py_strip_idem)
qed

theorem clean_filename_idempotent_witness:
  "clean_filename True (clean_filename True '' AC/DC: ...Live? '')
     = clean_filename True '' AC/DC: ...Live? ''
   \<and> clean_filename True '' AC/DC: ...Live? '' = ''ACDC Live''"
proof
  show "clean_filename True (clean_filename True '' AC/DC: ...Live? '')
     = clean_filename True '' AC/DC: ...Live? ''"
    by (rule clean_filename_idempotent)
  show "clean_filename True '' AC/DC: ...Live? '' = ''ACDC Live''"
    by (simp add: clean_filename_def translate_delete_def py_strip_def is_space_def dquote_def
      squote_def backslash_def)
qed

text \<open>
  C7. For every file that reaches the collision check with a new location, if the check
  finds the path of the file under that location present, the turn leaves the file system
  as it was (nothing is copied, the file there is not touched), adds the
  SkippedExisting record to \<open>replace_skip_files\<close> and changes nothing else: there is
  no error record and no progress.
\<close>

theorem existing_destination_skipped:
  assumes "snd (snd (snd (plan os flag dest (files st) (path_in_str_of path)))) = Inr new_location"
    and "path_exists os (files st) (new_location @ ''/'' @ file_name_of path) = Inr True"
  shows "process_file os flag dest n path st =
    st\<lparr>replace_skip_files := replace_skip_files st
          @ [[(''file_name'', PVal (VStr (file_name_of path))),
              (''new_location'', PVal (VStr new_location)),
              (''path_in_str'', PVal (VStr (path_in_str_of path))),
              (''error'', PVal (VStr ''File already exists in the destination folder''))]]\<rparr>"
proof -
  from assms have "try_block os flag dest (files st) (path_in_str_of path) (file_name_of path)
      = (files st, Existing (handle_existing_file (file_name_of path) new_location
            (path_in_str_of path)))"
    by (simp add: try_block_def)
  from process_file_Existing [OF this] show ?thesis
    by (simp add: handle_existing_file_def PStr_def exists_message_def)
qed

theorem existing_destination_skipped_witness:
  "process_file (listing_os [] example_reader) True ''/dest'' 3 ''/music/b.mp3'' start_state
   = start_state\<lparr>replace_skip_files :=
       [[(''file_name'', PVal (VStr ''b.mp3'')),
         (''new_location'', PVal (VStr ''/dest/Abba/Arrival'')),
         (''path_in_str'', PVal (VStr ''/music/b.mp3'')),
         (''error'', PVal (VStr ''File already exists in the destination folder''))]]\<rparr>"
proof -
  have a: "snd (snd (snd (plan (listing_os [] example_reader) True ''/dest'' (files start_state)
      (path_in_str_of ''/music/b.mp3'')))) = Inr ''/dest/Abba/Arrival''"
    by code_simp
  have b: "path_exists (listing_os [] example_reader) (files start_state)
      (''/dest/Abba/Arrival'' @ ''/'' @ file_name_of ''/music/b.mp3'') = Inr True"
    by code_simp
  have c: "file_name_of ''/music/b.mp3'' = ''b.mp3''" "path_in_str_of ''/music/b.mp3'' = ''/music/b.mp3''"
    by code_simp+
  from existing_destination_skipped [OF a b, of 3] show ?thesis
    by (simp add: c start_state_def)
qed

text \<open>
  C8. For every file whose tags were read and hold no artist alias or no album alias, the
  turn adds to \<open>error_files\<close> a record with the message \<open>Artist or album data not found\<close>
  whose \<open>artist_found\<close> and \<open>album_found\<close> are the values the scan ended with: for each
  class the value of its last alias key as the library gave it, the empty string for a
  class with no alias. The file is counted.
\<close>

theorem identity_missing:
  assumes "mutagen_File os (files st) (path_in_str_of path) = Tags items"
    and "\<not> has_alias artist_values items \<or> \<not> has_alias album_values items"
  shows "process_file os flag dest n path st =
      st\<lparr>error_files := error_files st
            @ [[(''file_name'', PVal (VStr (file_name_of path))),
                (''artist_found'',
                   PVal (if has_alias artist_values items
                         then last_match artist_values items (VStr []) else VStr [])),
                (''album_found'',
                   PVal (if has_alias album_values items
                         then last_match album_values items (VStr []) else VStr [])),
                (''metadata_dict'', PDict (fill_dict items [])),
                (''error'', PVal (VStr ''Artist or album data not found''))]],
         progress_i := progress_i st + 1,
         signals := signals st @ [MusicProgress (progress_percent (progress_i st + 1) n)]\<rparr>"
proof -
  define a where "a = last_match artist_values items (VStr [])"
  define b where "b = last_match album_values items (VStr [])"
  have s: "scan_tags items (VStr [], VStr []) = (a, b)"
    by (simp add: scan_tags_last_match a_def b_def)
  have ua: "a = VStr []" if "\<not> has_alias artist_values items"
    using that by (simp add: a_def last_match_unresolved)
  have ub: "b = VStr []" if "\<not> has_alias album_values items"
    using that by (simp add: b_def last_match_unresolved)
  from assms(2) ua ub have "py_eq_str a [] \<or> py_eq_str b []" by auto
  with plan_Tags [OF assms(1) s, of flag dest]
  have "plan os flag dest (files st) (path_in_str_of path)
      = (a, b, fill_dict items [], Inl ''Artist or album data not found'')"
    by auto
  from process_file_plan_raises [OF this]
  have "process_file os flag dest n path st =
      st\<lparr>error_files := error_files st
            @ [create_error_info (file_name_of path) a b
                 (fill_dict items []) ''Artist or album data not found''],
         progress_i := progress_i st + 1,
         signals := signals st @ [MusicProgress (progress_percent (progress_i st + 1) n)]\<rparr>"
    by (simp add: exists_message_def)
  moreover have "(if has_alias artist_values items
      then last_match artist_values items (VStr []) else VStr []) = a"
    using ua by (simp add: a_def)
  moreover have "(if has_alias album_values items
      then last_match album_values items (VStr []) else VStr []) = b"
    using ub by (simp add: b_def)
  ultimately show ?thesis
    by (simp add: create_error_info_def PStr_def)
qed

theorem identity_missing_witness:
  "process_file (listing_os [] example_reader) True ''/dest'' 3 ''/music/c.mp3'' start_state
   = start_state\<lparr>error_files :=
        [[(''file_name'', PVal (VStr ''c.mp3'')),
          (''artist_found'', PVal (VSeq [EStr ''Abba''])),
          (''album_found'', PVal (VStr [])),
          (''metadata_dict'', PDict [(''artist'', VSeq [EStr ''Abba''])]),
          (''error'', PVal (VStr ''Artist or album data not found''))]],
      progress_i := 1, signals := [NumberSongs 3, MusicProgress 33]\<rparr>"
proof -
  have a: "mutagen_File (listing_os [] example_reader) (files start_state)
      (path_in_str_of ''/music/c.mp3'') = Tags [(''artist'', VSeq [EStr ''Abba''])]"
    by code_simp
  have b: "\<not> has_alias artist_values [(''artist'', VSeq [EStr ''Abba''])]
      \<or> \<not> has_alias album_values [(''artist'', VSeq [EStr ''Abba''])]"
    by code_simp
  have c: "file_name_of ''/music/c.mp3'' = ''c.mp3''"
    "has_alias artist_values [(''artist'', VSeq [EStr ''Abba''])] = True"
    "has_alias album_values [(''artist'', VSeq [EStr ''Abba''])] = False"
    "last_match artist_values [(''artist'', VSeq [EStr ''Abba''])] (VStr []) = VSeq [EStr ''Abba'']"
    "fill_dict [(''artist'', VSeq [EStr ''Abba''])] [] = [(''artist'', VSeq [EStr ''Abba''])]"
    by code_simp+
  from identity_missing [OF a b, of True "''/dest''" 3, unfolded c] show ?thesis
    by (simp add: start_state_def percent_1_of_3)
qed

text \<open>
  C9. For every run in which discovery finds no file, the signals are the count 0, one
  notice that no songs were found and the request to end the thread; there is no result
  signal and no progress signal, and the file system is as it was.
\<close>

theorem no_songs_found:
  "discover os fs src = [] \<Longrightarrow>
   run os src dest flag fs =
    (fs, [NumberSongs 0, CustomDialog ''No songs were found in the selected folder.'',
          KillThread ''organize''])"
  by (rule run_empty)

theorem no_songs_found_witness:
  "run (listing_os [] example_reader) ''/music'' ''/dest'' True example_fs =
    (example_fs, [NumberSongs 0, CustomDialog ''No songs were found in the selected folder.'',
          KillThread ''organize''])"
proof -
  have "discover (listing_os [] example_reader) example_fs ''/music'' = []"
    by code_simp
  then show ?thesis by (rule no_songs_found)
qed

text \<open>
  C10. For every file whose artist and album values were both found, neither of them
  equal to the empty string, and one of them an empty list, taking the first element raises
  inside the \<open>try\<close> block and the run goes on: the turn adds to \<open>error_files\<close> a record
  with the two values as the library gave them and the message of the exception,
  \<open>list index out of range\<close>, counts the file, and the loop continues with the files that
  follow. (A text object of the library with no text is equal to the empty string: such a
  file fails the check before, with the message of C8.)
\<close>

theorem empty_sequence_is_caught:
  assumes "mutagen_File os (files st) (path_in_str_of path) = Tags items"
    and "\<not> py_eq_str (last_match artist_values items (VStr [])) []"
    and "\<not> py_eq_str (last_match album_values items (VStr [])) []"
    and "last_match artist_values items (VStr []) = VSeq []
         \<or> last_match album_values items (VStr []) = VSeq []"
  shows "organize_loop os flag dest n (path # pathlist) st =
    organize_loop os flag dest n pathlist
      (st\<lparr>error_files := error_files st
            @ [[(''file_name'', PVal (VStr (file_name_of path))),
                (''artist_found'', PVal (last_match artist_values items (VStr []))),
                (''album_found'', PVal (last_match album_values items (VStr []))),
                (''metadata_dict'', PDict (fill_dict items [])),
                (''error'', PVal (VStr ''list index out of range''))]],
         progress_i := progress_i st + 1,
         signals := signals st @ [MusicProgress (progress_percent (progress_i st + 1) n)]\<rparr>)"
proof -
  define artist_data where "artist_data = last_match artist_values items (VStr [])"
  define album_data where "album_data = last_match album_values items (VStr [])"
  have s: "scan_tags items (VStr [], VStr []) = (artist_data, album_data)"
    by (simp add: scan_tags_last_match artist_data_def album_data_def)
  have na: "\<not> py_eq_str artist_data []" and nb: "\<not> py_eq_str album_data []"
    using assms(2,3) by (simp_all add: artist_data_def album_data_def)
  have e: "artist_data = VSeq [] \<or> album_data = VSeq []"
    using assms(4) by (simp add: artist_data_def album_data_def)
  have "(case first_text artist_data of
        Inl e \<Rightarrow> Inl e
      | Inr artist0 \<Rightarrow>
     (case first_text album_data of
        Inl e \<Rightarrow> Inl e
      | Inr album0 \<Rightarrow>
     (case clean_value flag artist0 of
        Inl e \<Rightarrow> Inl e
      | Inr artist \<Rightarrow>
     (case clean_value flag album0 of
        Inl e \<Rightarrow> Inl e
      | Inr album \<Rightarrow> Inr (dest @ ''/'' @ artist @ ''/'' @ album)))))
     = Inl ''list index out of range''"
  proof (cases "artist_data = VSeq []")
    case True
    then show ?thesis by (simp add: first_text_def)
  next
    case False
    with e have b: "album_data = VSeq []" by simp
    from False na have "\<exists>x. first_text artist_data = Inr x"
      by (cases artist_data rule: index0.cases) (auto simp: first_text_def split: elem.splits)
    then obtain x where "first_text artist_data = Inr x" ..
    with b show ?thesis by (simp add: first_text_def)
  qed
  with plan_Tags [OF assms(1) s, of flag dest] na nb
  have "plan os flag dest (files st) (path_in_str_of path)
      = (artist_data, album_data, fill_dict items [], Inl ''list index out of range'')"
    by simp
  from process_file_plan_raises [OF this]
  have "process_file os flag dest n path st =
      st\<lparr>error_files := error_files st
            @ [create_error_info (file_name_of path) artist_data album_data
                 (fill_dict items []) ''list index out of range''],
         progress_i := progress_i st + 1,
         signals := signals st @ [MusicProgress (progress_percent (progress_i st + 1) n)]\<rparr>"
    by (simp add: exists_message_def)
  then show ?thesis
    by (simp add: create_error_info_def PStr_def artist_data_def album_data_def)
qed

theorem empty_sequence_is_caught_witness:
  "organize_loop (listing_os [] example_reader) True ''/dest'' 3
     [''/music/d.mp3'', ''/music/a.mp3''] start_state
   = start_state\<lparr>files := ''/dest/Abba/Arrival/a.mp3'' # example_fs,
       error_files :=
        [[(''file_name'', PVal (VStr ''d.mp3'')),
          (''artist_found'', PVal (VSeq [])),
          (''album_found'', PVal (VSeq [EStr ''Arrival''])),
          (''metadata_dict'', PDict [(''artist'', VSeq []), (''album'', VSeq [EStr ''Arrival''])]),
          (''error'', PVal (VStr ''list index out of range''))]],
      progress_i := 2,
      signals := [NumberSongs 3, MusicProgress 33, MusicProgress 66]\<rparr>"
proof -
  let ?items = "[(''artist'', VSeq []), (''album'', VSeq [EStr ''Arrival''])]"
  let ?info = "[(''file_name'', PVal (VStr ''d.mp3'')),
          (''artist_found'', PVal (VSeq [])),
          (''album_found'', PVal (VSeq [EStr ''Arrival''])),
          (''metadata_dict'', PDict ?items),
          (''error'', PVal (VStr ''list index out of range''))]"
  have a: "mutagen_File (listing_os [] example_reader) (files start_state)
      (path_in_str_of ''/music/d.mp3'') = Tags ?items"
    by code_simp
  have l: "last_match artist_values ?items (VStr []) = VSeq []"
    "last_match album_values ?items (VStr []) = VSeq [EStr ''Arrival'']"
    by code_simp+
  have b1: "\<not> py_eq_str (last_match artist_values ?items (VStr [])) []"
    and b2: "\<not> py_eq_str (last_match album_values ?items (VStr [])) []"
    and b3: "last_match artist_values ?items (VStr []) = VSeq []
         \<or> last_match album_values ?items (VStr []) = VSeq []"
    by (simp_all add: l)
  have c: "file_name_of ''/music/d.mp3'' = ''d.mp3''" "fill_dict ?items [] = ?items"
    by code_simp+
  have d: "process_file (listing_os [] example_reader) True ''/dest'' 3 ''/music/a.mp3''
      (start_state\<lparr>error_files := [?info],
        progress_i := 1, signals := [NumberSongs 3, MusicProgress 33]\<rparr>)
    = start_state\<lparr>files := ''/dest/Abba/Arrival/a.mp3'' # example_fs,
       error_files := [?info],
      progress_i := 2,
      signals := [NumberSongs 3, MusicProgress 33, MusicProgress 66]\<rparr>"
    by code_simp
  from empty_sequence_is_caught [OF a b1 b2 b3, of True "''/dest''" 3 "[''/music/a.mp3'']",
      unfolded l c]
  have "organize_loop (listing_os [] example_reader) True ''/dest'' 3
     [''/music/d.mp3'', ''/music/a.mp3''] start_state
    = organize_loop (listing_os [] example_reader) True ''/dest'' 3 [''/music/a.mp3'']
      (start_state\<lparr>error_files := [?info],
        progress_i := 1, signals := [NumberSongs 3, MusicProgress 33]\<rparr>)"
    by (simp add: start_state_def percent_1_of_3)
  also have "\<dots> = start_state\<lparr>files := ''/dest/Abba/Arrival/a.mp3'' # example_fs,
       error_files := [?info],
      progress_i := 2,
      signals := [NumberSongs 3, MusicProgress 33, MusicProgress 66]\<rparr>"
    by (simp only: organize_loop.simps d)
  finally show ?thesis .
qed

end
